theory Spec2Isabelle
  imports Complex_Main
begin

section \<open>Savings tracker: history reconstruction, cumulative totals and forecast\<close>

text \<open>
  The theory embeds the computational core of \<^verbatim>\<open>src/saving/main.py\<close>: the two helper
  functions \<^verbatim>\<open>compute_growth_monthly\<close> and \<^verbatim>\<open>compute_growth\<close> (lines 163-173), the history
  reconstruction loop of \<^verbatim>\<open>tab_main\<close> (lines 223-246) and the cumulative loop of
  \<^verbatim>\<open>tab_forecast\<close> (lines 267-276).

  Currency values are Python floats in the source. They are modelled as \<^typ>\<open>real\<close>: every
  arithmetic operation is exact, rounding is not modelled. Python's \<^verbatim>\<open>x ** y\<close> on floats is
  \<^term>\<open>x powr y\<close> for a base \<^term>\<open>0 \<le> x\<close>; for a negative base and the exponent
  \<^verbatim>\<open>1 / 12\<close> Python leaves the floats (the result is a complex number), which the model does
  not follow: the monthly rate is meaningful for an annual rate of at least \<open>-1\<close>.
  The properties stated below are about the structure, the order and the sign of the values,
  which rounding keeps; what holds of the exact values only, such as the identity
  \<open>(1 + monthly_rate) ^ 12 = 1 + annual_rate\<close>, which doubles satisfy up to rounding, is
  not stated.
\<close>

subsection \<open>Dates\<close>

text \<open>
  The records carry \<^verbatim>\<open>datetime\<close> values built by \<^verbatim>\<open>datetime.fromisoformat\<close> from the calendar
  dates the form stores (\<^verbatim>\<open>new_date.isoformat()\<close>), so the time of day is midnight
  throughout. A date is modelled by its proleptic Gregorian ordinal (\<^verbatim>\<open>toordinal()\<close>, day 1 is
  0001-01-01): comparison of dates is comparison of ordinals and adding
  \<^verbatim>\<open>timedelta(days=n)\<close> adds \<open>n\<close>. The fields \<^verbatim>\<open>year\<close> and \<^verbatim>\<open>month\<close> are read off the ordinal
  the way the standard library's \<^verbatim>\<open>_ord2ymd\<close> does; \<open>ymd2ord\<close> is its \<^verbatim>\<open>_ymd2ord\<close> and
  writes the dates of the examples.
\<close>

type_synonym datetime = int

definition MAXORDINAL :: int where
  "MAXORDINAL = 3652059"

text \<open>The ordinals of the dates the library represents, 0001-01-01 to 9999-12-31.\<close>

definition is_date :: "datetime \<Rightarrow> bool" where
  "is_date d = (1 \<le> d \<and> d \<le> MAXORDINAL)"

definition is_leap :: "int \<Rightarrow> bool" where
  "is_leap y = (y mod 4 = 0 \<and> (y mod 100 \<noteq> 0 \<or> y mod 400 = 0))"

definition days_before_year :: "int \<Rightarrow> int" where
  "days_before_year y = (y - 1) * 365 + (y - 1) div 4 - (y - 1) div 100 + (y - 1) div 400"

definition DAYS_IN_MONTH :: "int list" where
  "DAYS_IN_MONTH = [-1, 31, 28, 31, 30, 31, 30, 31, 31, 30, 31, 30, 31]"

definition DAYS_BEFORE_MONTH :: "int list" where
  "DAYS_BEFORE_MONTH = [-1, 0, 31, 59, 90, 120, 151, 181, 212, 243, 273, 304, 334]"

definition days_before_month :: "int \<Rightarrow> int \<Rightarrow> int" where
  "days_before_month y m =
     DAYS_BEFORE_MONTH ! nat m + (if m > 2 \<and> is_leap y then 1 else 0)"

definition ymd2ord :: "int \<Rightarrow> int \<Rightarrow> int \<Rightarrow> datetime" where
  "ymd2ord y m d = days_before_year y + days_before_month y m + d"

definition ord2ymd :: "datetime \<Rightarrow> int \<times> int \<times> int" where
  "ord2ymd n0 =
     (let n = n0 - 1;
          n400 = n div 146097; n = n mod 146097;
          y = n400 * 400 + 1;
          n100 = n div 36524; n = n mod 36524;
          n4 = n div 1461; n = n mod 1461;
          n1 = n div 365; n = n mod 365;
          y = y + n100 * 100 + n4 * 4 + n1
      in if n1 = 4 \<or> n100 = 4 then (y - 1, 12, 31)
         else
           let leapyear = (n1 = 3 \<and> (n4 \<noteq> 24 \<or> n100 = 3));
               m = (n + 50) div 32;
               preceding = DAYS_BEFORE_MONTH ! nat m + (if m > 2 \<and> leapyear then 1 else 0)
           in if preceding > n
              then let m = m - 1;
                       preceding = preceding
                         - (DAYS_IN_MONTH ! nat m + (if m = 2 \<and> leapyear then 1 else 0))
                   in (y, m, n - preceding + 1)
              else (y, m, n - preceding + 1))"

definition year :: "datetime \<Rightarrow> int" where
  "year d = fst (ord2ymd d)"

definition month :: "datetime \<Rightarrow> int" where
  "month d = fst (snd (ord2ymd d))"

datatype error = OverflowError

text \<open>
  \<^verbatim>\<open>last_date + timedelta(days=n)\<close>: the library raises \<^verbatim>\<open>OverflowError\<close> when the result
  leaves the years 1 to 9999.
\<close>

definition plus_days :: "datetime \<Rightarrow> int \<Rightarrow> error + datetime" where
  "plus_days d n = (if 1 \<le> d + n \<and> d + n \<le> MAXORDINAL then Inr (d + n) else Inl OverflowError)"

subsection \<open>Growth helpers (lines 163-173)\<close>

text \<open>
  \<^verbatim>\<open>
  def compute_growth_monthly(initial, months, monthly_rate):
      return initial * ((1 + monthly_rate) ** months)

  def compute_growth(initial, monthly, years, annual_rate):
      amounts = []
      value = initial
      monthly_rate = (1 + annual_rate) ** (1 / 12) - 1
      for i in range(years * 12):
          value = value * (1 + monthly_rate) + monthly
          amounts.append(value)
      return amounts
  \<close>
  The exponent \<open>months\<close> is the literal \<open>1\<close> at the only call (line 236), a natural number
  in the model. \<open>years\<close> is the integer of the form's number input; \<^verbatim>\<open>range\<close> of a
  number that is not positive is empty. The conversion of the annual rate, written out on
  lines 169 and 224, is \<open>monthly_rate_of\<close>.
\<close>

definition compute_growth_monthly :: "real \<Rightarrow> nat \<Rightarrow> real \<Rightarrow> real" where
  "compute_growth_monthly initial months monthly_rate = initial * ((1 + monthly_rate) ^ months)"

definition monthly_rate_of :: "real \<Rightarrow> real" where
  "monthly_rate_of annual_rate = (1 + annual_rate) powr (1 / 12) - 1"

text \<open>The loop of \<^verbatim>\<open>compute_growth\<close>: \<open>n\<close> iterations left, the state is \<open>value\<close> and \<open>amounts\<close>.\<close>

fun growth_loop :: "real \<Rightarrow> real \<Rightarrow> nat \<Rightarrow> real \<Rightarrow> real list \<Rightarrow> real list" where
  "growth_loop monthly monthly_rate 0 val amounts = amounts"
| "growth_loop monthly monthly_rate (Suc n) val amounts =
     (let val = val * (1 + monthly_rate) + monthly
      in growth_loop monthly monthly_rate n val (amounts @ [val]))"

definition compute_growth :: "real \<Rightarrow> real \<Rightarrow> int \<Rightarrow> real \<Rightarrow> real list" where
  "compute_growth initial monthly years annual_rate =
     (let monthly_rate = monthly_rate_of annual_rate
      in growth_loop monthly monthly_rate (nat (years * 12)) initial [])"

subsection \<open>Deposit records\<close>

text \<open>
  A row of \<^verbatim>\<open>deposits_sorted\<close> is the tuple \<^verbatim>\<open>(date, amount, is_total, current_total)\<close>
  (lines 221 and 264). \<open>amount\<close> is \<^verbatim>\<open>REAL NOT NULL\<close>, \<open>current_total\<close> is a nullable
  \<^verbatim>\<open>REAL\<close> (\<open>None\<close> is \<^verbatim>\<open>None\<close>) and \<open>is_total\<close> is read for its truth value only.
\<close>

record deposit =
  date :: datetime
  amount :: real
  is_total :: bool
  current_total :: "real option"

text \<open>\<^verbatim>\<open>if current_total:\<close> holds for a value that is neither \<^verbatim>\<open>None\<close> nor zero.\<close>

definition truthy :: "real option \<Rightarrow> bool" where
  "truthy c = (case c of None \<Rightarrow> False | Some v \<Rightarrow> v \<noteq> 0)"

subsection \<open>History reconstruction (lines 223-246)\<close>

text \<open>
  \<^verbatim>\<open>
  growth_rate = 0.06  # annual growth rate
  monthly_rate = (1 + growth_rate) ** (1 / 12) - 1
  graph_dates = []
  graph_values = []
  current_value = 0
  last_date = None
  for date, amount, is_total, current_total in deposits_sorted:
      if last_date:
          months_between = (date.year - last_date.year) * 12 + (date.month - last_date.month)
          for i in range(months_between):
              current_value = compute_growth_monthly(current_value, 1, monthly_rate)
              step_date = last_date + timedelta(days=30 * (i + 1))
              graph_dates.append(step_date)
              graph_values.append(current_value)
      if current_total:
          current_value = current_total
      else:
          current_value += amount
      graph_dates.append(date)
      graph_values.append(current_value)
      last_date = date
  \<close>
  The variables of the loop are the fields of \<open>history\<close>. A \<^verbatim>\<open>datetime\<close> is always true, so
  \<^verbatim>\<open>if last_date:\<close> asks whether a record has been seen.
\<close>

record history =
  graph_dates :: "datetime list"
  graph_values :: "real list"
  current_value :: real
  last_date :: "datetime option"

definition months_between :: "datetime \<Rightarrow> datetime \<Rightarrow> int" where
  "months_between d ld = (year d - year ld) * 12 + (month d - month ld)"

text \<open>The inner loop, over the values \<open>i\<close> of \<^verbatim>\<open>range(months_between)\<close>.\<close>

fun fill_months :: "real \<Rightarrow> datetime \<Rightarrow> nat list \<Rightarrow> history \<Rightarrow> error + history" where
  "fill_months monthly_rate ld [] h = Inr h"
| "fill_months monthly_rate ld (i # is) h =
     (let cv = compute_growth_monthly (current_value h) 1 monthly_rate
      in case plus_days ld (30 * (int i + 1)) of
           Inl e \<Rightarrow> Inl e
         | Inr step_date \<Rightarrow>
             fill_months monthly_rate ld is
               (h\<lparr>current_value := cv,
                   graph_dates := graph_dates h @ [step_date],
                   graph_values := graph_values h @ [cv]\<rparr>))"

text \<open>The body of the outer loop for one record.\<close>

definition process_record :: "real \<Rightarrow> history \<Rightarrow> deposit \<Rightarrow> error + history" where
  "process_record monthly_rate h r =
     (case (case last_date h of
              None \<Rightarrow> Inr h
            | Some ld \<Rightarrow>
                fill_months monthly_rate ld [0..<nat (months_between (date r) ld)] h) of
        Inl e \<Rightarrow> Inl e
      | Inr h1 \<Rightarrow>
          let cv = (case current_total r of
                      None \<Rightarrow> current_value h1 + amount r
                    | Some c \<Rightarrow> if c \<noteq> 0 then c else current_value h1 + amount r)
          in Inr (h1\<lparr>current_value := cv,
                      graph_dates := graph_dates h1 @ [date r],
                      graph_values := graph_values h1 @ [cv],
                      last_date := Some (date r)\<rparr>))"

fun history_loop :: "real \<Rightarrow> history \<Rightarrow> deposit list \<Rightarrow> error + history" where
  "history_loop monthly_rate h [] = Inr h"
| "history_loop monthly_rate h (r # rs) =
     (case process_record monthly_rate h r of
        Inl e \<Rightarrow> Inl e
      | Inr h1 \<Rightarrow> history_loop monthly_rate h1 rs)"

definition history0 :: history where
  "history0 = \<lparr>graph_dates = [], graph_values = [], current_value = 0, last_date = None\<rparr>"

text \<open>
  \<open>reconstruct\<close> is the loop with the annual rate as its parameter; its result is the series
  the chart plots, \<open>graph_dates\<close> against \<open>graph_values\<close>. The source runs it at the constant
  \<open>growth_rate\<close>.
\<close>

definition reconstruct :: "deposit list \<Rightarrow> real \<Rightarrow> error + (datetime \<times> real) list" where
  "reconstruct deposits_sorted annual_growth_rate =
     (let monthly_rate = monthly_rate_of annual_growth_rate
      in case history_loop monthly_rate history0 deposits_sorted of
           Inl e \<Rightarrow> Inl e
         | Inr h \<Rightarrow> Inr (zip (graph_dates h) (graph_values h)))"

definition growth_rate :: real where
  "growth_rate = 6 / 100"

definition tab_main_history :: "deposit list \<Rightarrow> error + (datetime \<times> real) list" where
  "tab_main_history deposits_sorted = reconstruct deposits_sorted growth_rate"

subsection \<open>Cumulative totals (lines 267-276)\<close>

text \<open>
  \<^verbatim>\<open>
  cumulative = []
  total = 0
  for _, amt, is_total, current_total in deposits_sorted:
      if current_total:
          total = current_total
      elif is_total:
          total = amt
      else:
          total += amt
      cumulative.append(total)
  \<close>
\<close>

text \<open>\<open>tot\<close> is the variable \<^verbatim>\<open>total\<close> of the source.\<close>

fun cumulative_loop :: "real \<Rightarrow> real list \<Rightarrow> deposit list \<Rightarrow> real list" where
  "cumulative_loop tot cumulative [] = cumulative"
| "cumulative_loop tot cumulative (r # rs) =
     (let tot = (case current_total r of
                   None \<Rightarrow> if is_total r then amount r else tot + amount r
                 | Some c \<Rightarrow>
                     if c \<noteq> 0 then c
                     else if is_total r then amount r else tot + amount r)
      in cumulative_loop tot (cumulative @ [tot]) rs)"

definition cumulative :: "deposit list \<Rightarrow> real list" where
  "cumulative deposits_sorted = cumulative_loop 0 [] deposits_sorted"

section \<open>Definitions for the statements\<close>

text \<open>
  The values \<^verbatim>\<open>compute_growth\<close> appends, without the accumulator: each month the value
  grows first and the contribution is added after.
\<close>

fun forecast_values :: "real \<Rightarrow> real \<Rightarrow> nat \<Rightarrow> real \<Rightarrow> real list" where
  "forecast_values monthly monthly_rate 0 v = []"
| "forecast_values monthly monthly_rate (Suc n) v =
     (v * (1 + monthly_rate) + monthly)
       # forecast_values monthly monthly_rate n (v * (1 + monthly_rate) + monthly)"

text \<open>
  The points one gap contributes: the \<open>k\<close>-th synthetic point, \<open>k\<close> from 1 to \<open>m\<close>, is dated
  \<open>30 * k\<close> days after the last record and carries the balance compounded \<open>k\<close> times.
\<close>

definition synthetic :: "real \<Rightarrow> datetime \<Rightarrow> real \<Rightarrow> nat \<Rightarrow> (datetime \<times> real) list" where
  "synthetic monthly_rate ld cv m =
     map (\<lambda>k. (ld + 30 * int k, cv * (1 + monthly_rate) ^ k)) [1..<Suc m]"

text \<open>The number of synthetic points before a record: the length of \<^verbatim>\<open>range(months_between)\<close>.\<close>

definition gap :: "datetime option \<Rightarrow> deposit \<Rightarrow> nat" where
  "gap prev r = (case prev of None \<Rightarrow> 0 | Some ld \<Rightarrow> nat (months_between (date r) ld))"

definition updated :: "real \<Rightarrow> deposit \<Rightarrow> real" where
  "updated cv r = (if truthy (current_total r) then the (current_total r) else cv + amount r)"

text \<open>The series of the reconstruction as a function of the records, when no date overflows.\<close>

fun points ::
  "real \<Rightarrow> real \<Rightarrow> datetime option \<Rightarrow> deposit list \<Rightarrow> (datetime \<times> real) list" where
  "points monthly_rate cv prev [] = []"
| "points monthly_rate cv prev (r # rs) =
     (let m = gap prev r;
          cv1 = updated (cv * (1 + monthly_rate) ^ m) r
      in (case prev of None \<Rightarrow> [] | Some ld \<Rightarrow> synthetic monthly_rate ld cv m)
           @ (date r, cv1) # points monthly_rate cv1 (Some (date r)) rs)"

text \<open>
  No synthetic date leaves the calendar: for every gap with synthetic points the first and
  the last of them are dates the library can represent.
\<close>

fun no_overflow :: "datetime option \<Rightarrow> deposit list \<Rightarrow> bool" where
  "no_overflow prev [] = True"
| "no_overflow prev (r # rs) =
     ((case prev of
         None \<Rightarrow> True
       | Some ld \<Rightarrow>
           gap prev r = 0 \<or> (1 \<le> ld + 30 \<and> ld + 30 * int (gap prev r) \<le> MAXORDINAL))
      \<and> no_overflow (Some (date r)) rs)"

text \<open>
  The update of the running balance as section 4.1 of the specification words it, on the
  flag \<open>is_total\<close> alone.
\<close>

definition update_by_is_total :: "real \<Rightarrow> deposit \<Rightarrow> real" where
  "update_by_is_total cv r = (if is_total r then the (current_total r) else cv + amount r)"

text \<open>Two records that differ at most in \<open>is_total\<close>.\<close>

definition same_but_is_total :: "deposit \<Rightarrow> deposit \<Rightarrow> bool" where
  "same_but_is_total a b =
     (date a = date b \<and> amount a = amount b \<and> current_total a = current_total b)"

text \<open>
  The last synthetic date of every gap, \<open>30 * months_between\<close> days after the earlier
  record, is not after the later record.
\<close>

fun steps_fit :: "deposit list \<Rightarrow> bool" where
  "steps_fit (a # b # rs) =
     ((months_between (date b) (date a) \<le> 0
       \<or> date a + 30 * months_between (date b) (date a) \<le> date b)
      \<and> steps_fit (b # rs))"
| "steps_fit rs = True"

text \<open>
  The running totals as section 4.2 of the specification words them: \<open>current_total\<close> when
  it is present and not zero, else \<open>amount\<close> when \<open>is_total\<close> is set, else the total so far
  plus \<open>amount\<close>; one total per record.
\<close>

definition next_total :: "real \<Rightarrow> deposit \<Rightarrow> real" where
  "next_total tot r =
     (if current_total r \<noteq> None \<and> current_total r \<noteq> Some 0 then the (current_total r)
      else if is_total r then amount r
      else tot + amount r)"

fun cumulative_spec :: "real \<Rightarrow> deposit list \<Rightarrow> real list" where
  "cumulative_spec tot [] = []"
| "cumulative_spec tot (r # rs) = next_total tot r # cumulative_spec (next_total tot r) rs"

section \<open>Properties of the calendar\<close>

text \<open>
  The month \<open>_ord2ymd\<close> estimates from the day of the year \<open>r4\<close> (counted from 0) lies
  between 1 and 12, and thirty days for each month left in the year do not pass the end of
  the year.
\<close>

lemma month_estimate:
  fixes r4 :: int and leap :: bool
  assumes "0 \<le> r4" and "r4 \<le> 364"
  defines "m0 \<equiv> (r4 + 50) div 32"
  defines "preceding \<equiv> DAYS_BEFORE_MONTH ! nat m0 + (if m0 > 2 \<and> leap then 1 else 0)"
  defines "mth \<equiv> (if preceding > r4 then m0 - 1 else m0)"
  shows "1 \<le> mth \<and> mth \<le> 12 \<and> r4 + 30 * (12 - mth) \<le> 364"
proof -
  have lo: "32 * m0 \<le> r4 + 50" and hi: "r4 + 50 < 32 * m0 + 32"
    unfolding m0_def by presburger+
  with assms(1,2) have "1 \<le> m0" "m0 \<le> 12" by linarith+
  then have "m0 = 1 \<or> m0 = 2 \<or> m0 = 3 \<or> m0 = 4 \<or> m0 = 5 \<or> m0 = 6
    \<or> m0 = 7 \<or> m0 = 8 \<or> m0 = 9 \<or> m0 = 10 \<or> m0 = 11 \<or> m0 = 12"
    by arith
  then show ?thesis
    using lo hi assms(1,2)
    by (elim disjE) (simp_all add: mth_def preceding_def DAYS_BEFORE_MONTH_def)
qed

lemma digits:
  fixes n :: int
  assumes "1 \<le> n"
  defines "a \<equiv> (n - 1) div 146097"
  defines "r \<equiv> (n - 1) mod 146097"
  defines "b \<equiv> r div 36524"
  defines "r2 \<equiv> r mod 36524"
  defines "c \<equiv> r2 div 1461"
  defines "r3 \<equiv> r2 mod 1461"
  defines "e \<equiv> r3 div 365"
  defines "r4 \<equiv> r3 mod 365"
  shows "n - 1 = 146097 * a + 36524 * b + 1461 * c + 365 * e + r4"
    and "0 \<le> a" and "0 \<le> b" and "b \<le> 4" and "0 \<le> c" and "c \<le> 24"
    and "0 \<le> e" and "e \<le> 4" and "0 \<le> r4" and "r4 \<le> 364"
    and "b = 4 \<Longrightarrow> c = 0 \<and> e = 0 \<and> r4 = 0"
    and "e = 4 \<Longrightarrow> r4 = 0"
proof -
  have r: "n - 1 = 146097 * a + r" "0 \<le> r" "r < 146097"
    unfolding a_def r_def by simp_all
  have r2: "r = 36524 * b + r2" "0 \<le> r2" "r2 < 36524"
    unfolding b_def r2_def by simp_all
  have r3: "r2 = 1461 * c + r3" "0 \<le> r3" "r3 < 1461"
    unfolding c_def r3_def by simp_all
  have r4: "r3 = 365 * e + r4" "0 \<le> r4" "r4 < 365"
    unfolding e_def r4_def by simp_all
  show "n - 1 = 146097 * a + 36524 * b + 1461 * c + 365 * e + r4"
    using r(1) r2(1) r3(1) r4(1) by linarith
  show "0 \<le> a" using assms(1) by (simp add: a_def pos_imp_zdiv_nonneg_iff)
  show b0: "0 \<le> b" using r(2) by (simp add: b_def pos_imp_zdiv_nonneg_iff)
  show c0: "0 \<le> c" using r2(2) by (simp add: c_def pos_imp_zdiv_nonneg_iff)
  show e0: "0 \<le> e" using r3(2) by (simp add: e_def pos_imp_zdiv_nonneg_iff)
  show "b \<le> 4" using r(3) r2(1,2) by linarith
  show "c \<le> 24" using r2(3) r3(1,2) by linarith
  show "e \<le> 4" using r3(3) r4(1,2) by linarith
  show "0 \<le> r4" by (rule r4(2))
  show "r4 \<le> 364" using r4(3) by simp
  show "c = 0 \<and> e = 0 \<and> r4 = 0" if "b = 4"
    using that r(3) r2 r3 r4 c0 e0 by linarith
  show "r4 = 0" if "e = 4"
    using that r3(3) r4 by linarith
qed

lemma year_digits:
  fixes n :: int
  defines "a \<equiv> (n - 1) div 146097"
  defines "r \<equiv> (n - 1) mod 146097"
  defines "b \<equiv> r div 36524"
  defines "r2 \<equiv> r mod 36524"
  defines "c \<equiv> r2 div 1461"
  defines "r3 \<equiv> r2 mod 1461"
  defines "e \<equiv> r3 div 365"
  shows "year n = (if e = 4 \<or> b = 4 then a * 400 + 1 + b * 100 + c * 4 + e - 1
                   else a * 400 + 1 + b * 100 + c * 4 + e)"
  unfolding year_def ord2ymd_def Let_def a_def r_def b_def r2_def c_def r3_def e_def
  by (simp only: if_distrib [of fst] fst_conv if_cancel)

lemma month_digits:
  fixes n :: int
  defines "r \<equiv> (n - 1) mod 146097"
  defines "b \<equiv> r div 36524"
  defines "r2 \<equiv> r mod 36524"
  defines "c \<equiv> r2 div 1461"
  defines "r3 \<equiv> r2 mod 1461"
  defines "e \<equiv> r3 div 365"
  defines "r4 \<equiv> r3 mod 365"
  defines "leap \<equiv> (e = 3 \<and> (c \<noteq> 24 \<or> b = 3))"
  defines "m0 \<equiv> (r4 + 50) div 32"
  defines "preceding \<equiv> DAYS_BEFORE_MONTH ! nat m0 + (if m0 > 2 \<and> leap then 1 else 0)"
  shows "month n = (if e = 4 \<or> b = 4 then 12 else if preceding > r4 then m0 - 1 else m0)"
  unfolding month_def ord2ymd_def Let_def r_def b_def r2_def c_def r3_def e_def r4_def
    leap_def m0_def preceding_def
  by (simp only: if_distrib [of fst] if_distrib [of snd] fst_conv snd_conv)

lemma ord2ymd_remaining:
  assumes "1 \<le> n" and "n \<le> MAXORDINAL"
  shows "year n \<le> 9999 \<and> 1 \<le> month n \<and> month n \<le> 12 \<and>
         n + 30 * ((9999 - year n) * 12 + (12 - month n)) \<le> MAXORDINAL"
proof -
  define a where "a = (n - 1) div 146097"
  define r where "r = (n - 1) mod 146097"
  define b where "b = r div 36524"
  define r2 where "r2 = r mod 36524"
  define c where "c = r2 div 1461"
  define r3 where "r3 = r2 mod 1461"
  define e where "e = r3 div 365"
  define r4 where "r4 = r3 mod 365"
  define leap where "leap = (e = 3 \<and> (c \<noteq> 24 \<or> b = 3))"
  define m0 where "m0 = (r4 + 50) div 32"
  define preceding where
    "preceding = DAYS_BEFORE_MONTH ! nat m0 + (if m0 > 2 \<and> leap then 1 else 0)"
  define mth where "mth = (if preceding > r4 then m0 - 1 else m0)"
  note d = digits [OF assms(1), folded a_def r_def b_def r2_def c_def r3_def e_def r4_def]
  have yr: "year n = (if e = 4 \<or> b = 4 then a * 400 + 1 + b * 100 + c * 4 + e - 1
                   else a * 400 + 1 + b * 100 + c * 4 + e)"
    unfolding a_def r_def b_def r2_def c_def r3_def e_def by (rule year_digits)
  have mo: "month n = (if e = 4 \<or> b = 4 then 12 else mth)"
    unfolding mth_def preceding_def m0_def leap_def r4_def e_def r3_def c_def r2_def b_def r_def
    by (rule month_digits)
  from d(1) assms(2) d(3,5,7,9) have a24: "a \<le> 24"
    by (simp add: MAXORDINAL_def)
  from d(1) assms(2) have le: "146097 * a + 36524 * b + 1461 * c + 365 * e + r4 \<le> 3652058"
    by (simp add: MAXORDINAL_def)
  show ?thesis
  proof (cases "e = 4 \<or> b = 4")
    case True
    then show ?thesis
    proof
      assume e4: "e = 4"
      with d(11) have "b \<noteq> 4" by auto
      with d(4) have b3: "b \<le> 3" by linarith
      from d(12) [OF e4] have r40: "r4 = 0" .
      have "2097 * a + 524 * b + 21 * c \<le> 52383"
      proof (cases "a \<le> 23")
        case True with b3 d(6) show ?thesis by linarith
      next
        case False
        with a24 have a: "a = 24" by simp
        show ?thesis
        proof (cases "b \<le> 2")
          case True with a d(6) show ?thesis by linarith
        next
          case False
          with b3 have b: "b = 3" by simp
          from le a b e4 r40 have "c \<le> 23" by linarith
          with a b show ?thesis by linarith
        qed
      qed
      moreover have "year n = a * 400 + b * 100 + c * 4 + 4" "month n = 12"
        using e4 by (simp_all add: yr mo)
      moreover note e4 r40 d(1,3,5) a24 b3 d(6)
      ultimately have F: "2097 * a + 524 * b + 21 * c \<le> 52383"
        "year n = a * 400 + b * 100 + c * 4 + 4" "month n = 12" "e = 4" "r4 = 0"
        "n - 1 = 146097 * a + 36524 * b + 1461 * c + 365 * e + r4"
        "0 \<le> b" "0 \<le> c" "a \<le> 24" "b \<le> 3" "c \<le> 24"
        by blast+
      have "year n \<le> 9999" using F by linarith
      moreover have "1 \<le> month n" "month n \<le> 12" using F by linarith+
      moreover have "n + 30 * ((9999 - year n) * 12 + (12 - month n)) \<le> 3652059"
        using F by (simp add: algebra_simps)
      ultimately show ?thesis by (simp add: MAXORDINAL_def)
    next
      assume b4: "b = 4"
      from d(11) [OF b4] have z: "c = 0" "e = 0" "r4 = 0" by simp_all
      from le b4 z have "a \<le> 23" by linarith
      moreover have "year n = a * 400 + 400" "month n = 12"
        using b4 z by (simp_all add: yr mo)
      moreover note b4 z d(1)
      ultimately have F: "a \<le> 23" "year n = a * 400 + 400" "month n = 12" "b = 4"
        "c = 0" "e = 0" "r4 = 0"
        "n - 1 = 146097 * a + 36524 * b + 1461 * c + 365 * e + r4"
        by blast+
      have "year n \<le> 9999" using F by linarith
      moreover have "1 \<le> month n" "month n \<le> 12" using F by linarith+
      moreover have "n + 30 * ((9999 - year n) * 12 + (12 - month n)) \<le> 3652059"
        using F by (simp add: algebra_simps)
      ultimately show ?thesis by (simp add: MAXORDINAL_def)
    qed
  next
    case False
    with d(4,8) have ub: "b \<le> 3" "e \<le> 3" by linarith+
    have "1 \<le> mth \<and> mth \<le> 12 \<and> r4 + 30 * (12 - mth) \<le> 364"
      unfolding mth_def preceding_def m0_def by (rule month_estimate [OF d(9,10)])
    then have m: "1 \<le> mth" "mth \<le> 12" "r4 + 30 * (12 - mth) \<le> 364"
      by blast+
    have "2097 * a + 524 * b + 21 * c + 5 * e \<le> 52414"
    proof (cases "a \<le> 23")
      case True with ub d(6) show ?thesis by linarith
    next
      case False
      with a24 have a: "a = 24" by simp
      show ?thesis
      proof (cases "b \<le> 2")
        case True with a ub d(6) show ?thesis by linarith
      next
        case False
        with ub have b: "b = 3" by simp
        show ?thesis
        proof (cases "c \<le> 23")
          case True with a b ub show ?thesis by linarith
        next
          case False
          with d(6) have c: "c = 24" by simp
          from le a b c d(9) have "e \<le> 2" by linarith
          with a b c show ?thesis by linarith
        qed
      qed
    qed
    moreover have "year n = a * 400 + 1 + b * 100 + c * 4 + e" "month n = mth"
      using False by (simp_all add: yr mo)
    moreover note m d(1,3,5,7) a24 ub d(6)
    ultimately have F: "2097 * a + 524 * b + 21 * c + 5 * e \<le> 52414"
      "year n = a * 400 + 1 + b * 100 + c * 4 + e" "month n = mth"
      "1 \<le> mth" "mth \<le> 12" "r4 + 30 * (12 - mth) \<le> 364"
      "n - 1 = 146097 * a + 36524 * b + 1461 * c + 365 * e + r4"
      "0 \<le> b" "0 \<le> c" "0 \<le> e" "a \<le> 24" "b \<le> 3" "e \<le> 3" "c \<le> 24"
      by blast+
    have "year n \<le> 9999" using F by linarith
    moreover have "1 \<le> month n" "month n \<le> 12" using F by linarith+
    moreover have "n + 30 * ((9999 - year n) * 12 + (12 - month n)) \<le> 3652059"
      using F by (simp add: algebra_simps)
    ultimately show ?thesis by (simp add: MAXORDINAL_def)
  qed
qed

section \<open>Properties of the forecast\<close>

lemma growth_loop_append:
  "growth_loop monthly mr n v amounts = amounts @ forecast_values monthly mr n v"
  by (induction n arbitrary: v amounts) (simp_all add: Let_def)

lemma compute_growth_values:
  "compute_growth initial monthly years annual_rate =
     forecast_values monthly (monthly_rate_of annual_rate) (nat (years * 12)) initial"
  by (simp add: compute_growth_def growth_loop_append)

lemma length_forecast_values: "length (forecast_values monthly mr n v) = n"
  by (induction n arbitrary: v) simp_all

lemma forecast_values_nth:
  "i < n \<Longrightarrow> forecast_values monthly mr n v ! i =
     (if i = 0 then v else forecast_values monthly mr n v ! (i - 1)) * (1 + mr) + monthly"
proof (induction n arbitrary: v i)
  case 0
  then show ?case by simp
next
  case (Suc n)
  show ?case
  proof (cases i)
    case 0
    then show ?thesis by simp
  next
    case (Suc j)
    with Suc.prems have "j < n" by simp
    from Suc.IH [OF this] Suc show ?thesis
      by (cases j) simp_all
  qed
qed

lemma monthly_rate_of_0: "monthly_rate_of 0 = 0"
  by (simp add: monthly_rate_of_def)

text \<open>
  C3: for \<open>years \<ge> 1\<close> \<^verbatim>\<open>compute_growth\<close> returns exactly \<open>years * 12\<close> values, and the value
  at every index \<open>i\<close> of the result is its predecessor (\<open>initial\<close> at index 0, which is not
  itself part of the result) times \<open>1 + monthly_rate\<close> plus the monthly contribution: growth
  is applied before the contribution.
\<close>

theorem compute_growth_recurrence:
  assumes "1 \<le> years" and "i < nat (years * 12)"
  shows "length (compute_growth initial monthly years annual_rate) = nat (years * 12) \<and>
         compute_growth initial monthly years annual_rate ! i =
           (if i = 0 then initial
            else compute_growth initial monthly years annual_rate ! (i - 1))
             * (1 + monthly_rate_of annual_rate) + monthly"
  using assms(2) by (simp add: compute_growth_values length_forecast_values forecast_values_nth)

theorem compute_growth_recurrence_witness:
  "(1::int) \<le> 1 \<and> (1::nat) < nat (1 * 12) \<and>
   length (compute_growth 0 100 1 0) = 12 \<and>
   compute_growth 0 100 1 0 ! 1 = compute_growth 0 100 1 0 ! 0 * (1 + monthly_rate_of 0) + 100"
  using compute_growth_recurrence [of 1 1 0 100 0] by simp

lemma growth_factor_nonneg: "0 \<le> 1 + monthly_rate_of r"
  by (simp add: monthly_rate_of_def)

lemma forecast_values_zero: "forecast_values 0 mr n 0 = replicate n 0"
  by (induction n) simp_all

lemma forecast_values_nonneg:
  assumes "0 \<le> 1 + mr" and "0 \<le> monthly"
  shows "0 \<le> v \<Longrightarrow> \<forall>x \<in> set (forecast_values monthly mr n v). 0 \<le> x"
proof (induction n arbitrary: v)
  case 0
  then show ?case by simp
next
  case (Suc n)
  from Suc.prems assms have "0 \<le> v * (1 + mr) + monthly" by simp
  from Suc.IH [OF this] this show ?case by simp
qed

lemma monthly_rate_nonneg: "0 \<le> r \<Longrightarrow> 0 \<le> monthly_rate_of r"
  by (simp add: monthly_rate_of_def ge_one_powr_ge_zero)

lemma forecast_values_ge:
  assumes "0 \<le> mr" and "0 \<le> monthly"
  shows "0 \<le> v \<Longrightarrow> \<forall>x \<in> set (forecast_values monthly mr n v). v \<le> x"
proof (induction n arbitrary: v)
  case 0
  then show ?case by simp
next
  case (Suc n)
  let ?w = "v * (1 + mr) + monthly"
  from Suc.prems assms have "0 \<le> v * mr" by simp
  with assms have le: "v \<le> ?w" by (simp add: algebra_simps)
  with Suc.prems have "0 \<le> ?w" by simp
  from Suc.IH [OF this] le show ?case by fastforce
qed

lemma forecast_values_sorted:
  assumes "0 \<le> mr" and "0 \<le> monthly"
  shows "0 \<le> v \<Longrightarrow> sorted (forecast_values monthly mr n v)"
proof (induction n arbitrary: v)
  case 0
  then show ?case by simp
next
  case (Suc n)
  let ?w = "v * (1 + mr) + monthly"
  from Suc.prems assms have nonneg: "0 \<le> ?w" by simp
  from Suc.IH [OF nonneg] forecast_values_ge [OF assms nonneg, of n] show ?case by simp
qed

text \<open>
  C7, as amended: for an annual rate above zero, \<open>initial \<ge> 0\<close>, a monthly contribution
  \<open>\<ge> 0\<close> and \<open>years \<ge> 1\<close>, the forecast never decreases: each value is at least its
  predecessor. Growth need not be strict: the value can stay where it is from one month to
  the next.
\<close>

theorem compute_growth_nondecreasing:
  assumes "0 < annual_rate" and "0 \<le> initial" and "0 \<le> monthly" and "1 \<le> years"
  shows "sorted (compute_growth initial monthly years annual_rate)"
proof -
  from assms(1) have "0 \<le> monthly_rate_of annual_rate"
    by (intro monthly_rate_nonneg) simp
  from forecast_values_sorted [OF this assms(3,2)] show ?thesis
    by (simp add: compute_growth_values)
qed

theorem compute_growth_nondecreasing_witness:
  "(0::real) < 1 / 25 \<and> (0::real) \<le> 0 \<and> (0::real) \<le> 100 \<and> (1::int) \<le> 1 \<and>
   sorted (compute_growth 0 100 1 (1 / 25)) \<and> sorted (compute_growth 0 0 1 (1 / 25))"
  using compute_growth_nondecreasing [of "1 / 25" 0 100 1]
    compute_growth_nondecreasing [of "1 / 25" 0 0 1]
  by simp

text \<open>
  C7, as stated, fails when nothing is invested: with \<open>initial = 0\<close> and no contribution
  the forecast at 4% is twelve times zero, which is not strictly increasing.
\<close>

theorem compute_growth_zero_flat:
  "(0::real) < 1 / 25 \<and> (0::real) \<le> 0 \<and> (1::int) \<le> 1 \<and>
   compute_growth 0 0 1 (1 / 25) = [0, 0, 0, 0, 0, 0, 0, 0, 0, 0, 0, 0] \<and>
   \<not> sorted_wrt (<) (compute_growth 0 0 1 (1 / 25))"
  by (simp add: compute_growth_values forecast_values_zero eval_nat_numeral)

section \<open>Properties of the reconstruction\<close>

lemma fill_months_result:
  "fill_months mr ld is h = Inr h1 \<Longrightarrow>
     current_value h1 = current_value h * (1 + mr) ^ length is \<and>
     last_date h1 = last_date h \<and>
     graph_dates h1 = graph_dates h @ map (\<lambda>i. ld + 30 * (int i + 1)) is \<and>
     graph_values h1 =
       graph_values h @ map (\<lambda>j. current_value h * (1 + mr) ^ Suc j) [0..<length is]"
proof (induction "is" arbitrary: h)
  case Nil
  then show ?case by simp
next
  case (Cons i "is")
  from Cons.prems obtain d where d: "plus_days ld (30 * (int i + 1)) = Inr d"
    by (auto simp: Let_def split: sum.splits)
  then have dv: "d = ld + 30 * (int i + 1)"
    by (auto simp: plus_days_def split: if_splits)
  let ?cv = "compute_growth_monthly (current_value h) 1 mr"
  let ?h = "h\<lparr>current_value := ?cv, graph_dates := graph_dates h @ [d],
              graph_values := graph_values h @ [?cv]\<rparr>"
  from Cons.prems d have "fill_months mr ld is ?h = Inr h1"
    by (simp add: Let_def)
  from Cons.IH [OF this] dv show ?case
    by (simp add: compute_growth_monthly_def upt_conv_Cons [of 0] map_Suc_upt [symmetric]
        mult.assoc del: upt_Suc)
qed

lemma fill_months_range:
  assumes "fill_months mr ld [0..<m] h = Inr h1"
  shows "current_value h1 = current_value h * (1 + mr) ^ m"
    and "last_date h1 = last_date h"
    and "graph_dates h1 = graph_dates h @ map fst (synthetic mr ld (current_value h) m)"
    and "graph_values h1 = graph_values h @ map snd (synthetic mr ld (current_value h) m)"
proof -
  note r = fill_months_result [OF assms]
  show "current_value h1 = current_value h * (1 + mr) ^ m" using r by simp
  show "last_date h1 = last_date h" using r by simp
  have "map (\<lambda>i. ld + 30 * (int i + 1)) [0..<m] = map (\<lambda>k. ld + 30 * int k) (map Suc [0..<m])"
    by (simp add: algebra_simps)
  then show "graph_dates h1 = graph_dates h @ map fst (synthetic mr ld (current_value h) m)"
    using r by (simp add: synthetic_def comp_def map_Suc_upt del: upt_Suc)
  have "map (\<lambda>j. current_value h * (1 + mr) ^ Suc j) [0..<m]
        = map (\<lambda>k. current_value h * (1 + mr) ^ k) (map Suc [0..<m])"
    by simp
  then show "graph_values h1 = graph_values h @ map snd (synthetic mr ld (current_value h) m)"
    using r by (simp add: synthetic_def comp_def map_Suc_upt del: upt_Suc)
qed

lemma process_record_result:
  assumes "process_record mr h r = Inr h1"
  shows "current_value h1 = updated (current_value h * (1 + mr) ^ gap (last_date h) r) r"
    and "last_date h1 = Some (date r)"
    and "graph_dates h1 = graph_dates h @ map fst (points mr (current_value h) (last_date h) [r])"
    and "graph_values h1 = graph_values h @ map snd (points mr (current_value h) (last_date h) [r])"
proof -
  show "last_date h1 = Some (date r)"
    using assms by (auto simp: process_record_def Let_def split: sum.splits option.splits)
  show cv: "current_value h1 = updated (current_value h * (1 + mr) ^ gap (last_date h) r) r"
  proof (cases "last_date h")
    case None
    with assms show ?thesis
      by (auto simp: process_record_def Let_def gap_def updated_def truthy_def
          split: option.splits)
  next
    case (Some ld)
    with assms obtain h0 where h0: "fill_months mr ld [0..<nat (months_between (date r) ld)] h = Inr h0"
      by (auto simp: process_record_def split: sum.splits)
    from assms Some h0 fill_months_range(1) [OF h0] show ?thesis
      by (auto simp: process_record_def Let_def gap_def updated_def truthy_def
          split: option.splits)
  qed
  show "graph_dates h1 = graph_dates h @ map fst (points mr (current_value h) (last_date h) [r])"
  proof (cases "last_date h")
    case None
    with assms show ?thesis
      by (auto simp: process_record_def Let_def split: option.splits)
  next
    case (Some ld)
    with assms obtain h0 where h0: "fill_months mr ld [0..<nat (months_between (date r) ld)] h = Inr h0"
      by (auto simp: process_record_def split: sum.splits)
    from assms Some h0 fill_months_range(3) [OF h0] show ?thesis
      by (auto simp: process_record_def Let_def gap_def split: option.splits)
  qed
  show "graph_values h1 = graph_values h @ map snd (points mr (current_value h) (last_date h) [r])"
  proof (cases "last_date h")
    case None
    with assms cv show ?thesis
      by (auto simp: process_record_def Let_def split: option.splits)
  next
    case (Some ld)
    with assms obtain h0 where h0: "fill_months mr ld [0..<nat (months_between (date r) ld)] h = Inr h0"
      by (auto simp: process_record_def split: sum.splits)
    from assms Some h0 fill_months_range(4) [OF h0] cv show ?thesis
      by (auto simp: process_record_def Let_def gap_def split: option.splits)
  qed
qed

lemma history_loop_result:
  "history_loop mr h rs = Inr h1 \<Longrightarrow>
     graph_dates h1 = graph_dates h @ map fst (points mr (current_value h) (last_date h) rs) \<and>
     graph_values h1 = graph_values h @ map snd (points mr (current_value h) (last_date h) rs)"
proof (induction rs arbitrary: h)
  case Nil
  then show ?case by simp
next
  case (Cons r rs)
  from Cons.prems obtain h0 where h0: "process_record mr h r = Inr h0"
    and rest: "history_loop mr h0 rs = Inr h1"
    by (auto split: sum.splits)
  note p = process_record_result [OF h0]
  from Cons.IH [OF rest] p show ?case
    by (simp add: Let_def)
qed

lemma reconstruct_points:
  assumes "reconstruct rs annual = Inr pts"
  shows "pts = points (monthly_rate_of annual) 0 None rs"
proof -
  from assms obtain h where h: "history_loop (monthly_rate_of annual) history0 rs = Inr h"
    and pts: "pts = zip (graph_dates h) (graph_values h)"
    by (auto simp: reconstruct_def split: sum.splits)
  from history_loop_result [OF h] pts show ?thesis
    by (simp add: history0_def zip_map_fst_snd)
qed

lemma fill_months_ok:
  "\<forall>i \<in> set is. 1 \<le> ld + 30 * (int i + 1) \<and> ld + 30 * (int i + 1) \<le> MAXORDINAL \<Longrightarrow>
     \<exists>h1. fill_months mr ld is h = Inr h1"
  by (induction "is" arbitrary: h) (simp_all add: plus_days_def Let_def)

lemma process_record_ok:
  assumes "no_overflow (last_date h) [r]"
  shows "\<exists>h1. process_record mr h r = Inr h1"
proof (cases "last_date h")
  case None
  then show ?thesis by (simp add: process_record_def Let_def)
next
  case (Some ld)
  let ?m = "nat (months_between (date r) ld)"
  have "\<forall>i \<in> set [0..<?m]. 1 \<le> ld + 30 * (int i + 1) \<and> ld + 30 * (int i + 1) \<le> MAXORDINAL"
  proof
    fix i assume "i \<in> set [0..<?m]"
    then have i: "i < ?m" by simp
    with assms Some have "1 \<le> ld + 30" and "ld + 30 * int ?m \<le> MAXORDINAL"
      by (auto simp: gap_def)
    moreover from i have "int i + 1 \<le> int ?m" by linarith
    ultimately show "1 \<le> ld + 30 * (int i + 1) \<and> ld + 30 * (int i + 1) \<le> MAXORDINAL"
      by auto
  qed
  from fill_months_ok [OF this] obtain h0 where "fill_months mr ld [0..<?m] h = Inr h0" ..
  with Some show ?thesis by (simp add: process_record_def Let_def)
qed

lemma history_loop_ok:
  "no_overflow (last_date h) rs \<Longrightarrow> \<exists>h1. history_loop mr h rs = Inr h1"
proof (induction rs arbitrary: h)
  case Nil
  then show ?case by simp
next
  case (Cons r rs)
  from Cons.prems have "no_overflow (last_date h) [r]" by simp
  from process_record_ok [OF this] obtain h0 where h0: "process_record mr h r = Inr h0" ..
  from process_record_result(2) [OF h0] Cons.prems have "no_overflow (last_date h0) rs"
    by simp
  from Cons.IH [OF this] h0 show ?case by simp
qed

lemma reconstruct_total:
  assumes "no_overflow None rs"
  shows "reconstruct rs annual = Inr (points (monthly_rate_of annual) 0 None rs)"
proof -
  from history_loop_ok [of history0 rs "monthly_rate_of annual"] assms
  obtain h where "history_loop (monthly_rate_of annual) history0 rs = Inr h"
    by (auto simp: history0_def)
  then have "reconstruct rs annual = Inr (zip (graph_dates h) (graph_values h))"
    by (simp add: reconstruct_def)
  with reconstruct_points [of rs annual] show ?thesis by simp
qed

text \<open>
  No addition overflows on dates of the calendar: a gap of \<open>m\<close> months ends in or before
  December 9999, and \<open>30 * m\<close> days after a date do not pass the end of that month's year.
  So the reconstruction raises no error.
\<close>

lemma gap_in_range:
  assumes "is_date ld" and "is_date (date r)"
  shows "gap (Some ld) r = 0 \<or> (1 \<le> ld + 30 \<and> ld + 30 * int (gap (Some ld) r) \<le> MAXORDINAL)"
proof (cases "months_between (date r) ld \<le> 0")
  case True
  then show ?thesis by (simp add: gap_def)
next
  case False
  from assms(1) have l: "1 \<le> ld" "ld \<le> MAXORDINAL" by (simp_all add: is_date_def)
  from assms(2) have d: "1 \<le> date r" "date r \<le> MAXORDINAL" by (simp_all add: is_date_def)
  define k where "k = (9999 - year ld) * 12 + (12 - month ld)"
  from ord2ymd_remaining [OF l]
  have rem: "ld + 30 * k \<le> MAXORDINAL" unfolding k_def by blast
  from ord2ymd_remaining [OF d] have "year (date r) \<le> 9999" "month (date r) \<le> 12"
    by blast+
  then have "months_between (date r) ld \<le> k"
    by (simp add: months_between_def k_def)
  with rem have "ld + 30 * months_between (date r) ld \<le> MAXORDINAL" by linarith
  with False l show ?thesis by (simp add: gap_def)
qed

lemma no_overflow_dates:
  "\<forall>r \<in> set rs. is_date (date r) \<Longrightarrow>
   (case prev of None \<Rightarrow> True | Some ld \<Rightarrow> is_date ld) \<Longrightarrow> no_overflow prev rs"
proof (induction rs arbitrary: prev)
  case Nil
  then show ?case by simp
next
  case (Cons r rs)
  from Cons.prems(1) have r: "is_date (date r)" and rs: "\<forall>r \<in> set rs. is_date (date r)"
    by simp_all
  from Cons.IH [OF rs, of "Some (date r)"] r have rest: "no_overflow (Some (date r)) rs"
    by simp
  show ?case
  proof (cases prev)
    case None
    with rest show ?thesis by simp
  next
    case (Some ld)
    with Cons.prems(2) have "is_date ld" by simp
    from gap_in_range [OF this r] Some rest show ?thesis by simp
  qed
qed

lemma reconstruct_dates:
  assumes "\<forall>r \<in> set rs. is_date (date r)"
  shows "reconstruct rs annual = Inr (points (monthly_rate_of annual) 0 None rs)"
  by (rule reconstruct_total) (rule no_overflow_dates [OF assms], simp)

lemma process_record_dates:
  assumes "is_date (date r)" and "case last_date h of None \<Rightarrow> True | Some ld \<Rightarrow> is_date ld"
  shows "\<exists>h1. process_record mr h r = Inr h1"
proof -
  from assms have "no_overflow (last_date h) [r]"
    by (intro no_overflow_dates) simp_all
  then show ?thesis by (rule process_record_ok)
qed

text \<open>
  C2, as stated, fails: two records eleven calendar months apart give eleven synthetic
  points, one for each of the eleven months, before the point of the second record; the
  series has thirteen points with the point of the first record.
\<close>

theorem eleven_months_apart_eleven_synthetic:
  "months_between (ymd2ord 2024 12 15) (ymd2ord 2024 1 15) = 11 \<and>
   reconstruct
     [\<lparr>date = ymd2ord 2024 1 15, amount = 100, is_total = False, current_total = None\<rparr>,
      \<lparr>date = ymd2ord 2024 12 15, amount = 50, is_total = False, current_total = None\<rparr>] 0
   = Inr [(ymd2ord 2024 1 15, 100),
          (ymd2ord 2024 2 14, 100), (ymd2ord 2024 3 15, 100), (ymd2ord 2024 4 14, 100),
          (ymd2ord 2024 5 14, 100), (ymd2ord 2024 6 13, 100), (ymd2ord 2024 7 13, 100),
          (ymd2ord 2024 8 12, 100), (ymd2ord 2024 9 11, 100), (ymd2ord 2024 10 11, 100),
          (ymd2ord 2024 11 10, 100), (ymd2ord 2024 12 10, 100),
          (ymd2ord 2024 12 15, 150)]"
proof -
  have m: "months_between (ymd2ord 2024 12 15) (ymd2ord 2024 1 15) = 11"
    by code_simp
  have d: "ymd2ord 2024 1 15 = 738900" "ymd2ord 2024 12 15 = 739235"
    "ymd2ord 2024 2 14 = 738900 + 30" "ymd2ord 2024 3 15 = 738900 + 60"
    "ymd2ord 2024 4 14 = 738900 + 90" "ymd2ord 2024 5 14 = 738900 + 120"
    "ymd2ord 2024 6 13 = 738900 + 150" "ymd2ord 2024 7 13 = 738900 + 180"
    "ymd2ord 2024 8 12 = 738900 + 210" "ymd2ord 2024 9 11 = 738900 + 240"
    "ymd2ord 2024 10 11 = 738900 + 270" "ymd2ord 2024 11 10 = 738900 + 300"
    "ymd2ord 2024 12 10 = 738900 + 330"
    by code_simp+
  have "no_overflow None
     [\<lparr>date = ymd2ord 2024 1 15, amount = 100, is_total = False, current_total = None\<rparr>,
      \<lparr>date = ymd2ord 2024 12 15, amount = 50, is_total = False, current_total = None\<rparr>]"
    using m by (simp add: gap_def d MAXORDINAL_def)
  from reconstruct_total [OF this, of 0] m show ?thesis
    unfolding d
    by (simp add: Let_def gap_def updated_def truthy_def synthetic_def monthly_rate_of_0
        eval_nat_numeral)
qed

text \<open>
  C2, as amended: for two non-total records with amounts 100 then 50 whose dates are eleven
  calendar months apart, \<^verbatim>\<open>reconstruct\<close> at the annual rate 0 returns the point of the first record, eleven
  synthetic points of value 100 dated 30, 60, ..., 330 days after it, and the point of value
  150 at the second record's date; the values never decrease.
\<close>

theorem reconstruct_eleven_months:
  assumes "months_between d2 d1 = 11" and "is_date d1" and "is_date d2"
  shows "reconstruct
           [\<lparr>date = d1, amount = 100, is_total = False, current_total = None\<rparr>,
            \<lparr>date = d2, amount = 50, is_total = False, current_total = None\<rparr>] 0
         = Inr ((d1, 100) # map (\<lambda>k. (d1 + 30 * int k, 100)) [1..<12] @ [(d2, 150)]) \<and>
         sorted (map snd ((d1, 100 :: real) # map (\<lambda>k. (d1 + 30 * int k, 100)) [1..<12] @ [(d2, 150)]))"
proof -
  have "\<forall>r \<in> set
     [\<lparr>date = d1, amount = 100, is_total = False, current_total = None\<rparr>,
      \<lparr>date = d2, amount = 50, is_total = False, current_total = None\<rparr>]. is_date (date r)"
    using assms(2,3) by simp
  from reconstruct_dates [OF this, of 0] assms(1) have
    "reconstruct
           [\<lparr>date = d1, amount = 100, is_total = False, current_total = None\<rparr>,
            \<lparr>date = d2, amount = 50, is_total = False, current_total = None\<rparr>] 0
         = Inr ((d1, 100) # map (\<lambda>k. (d1 + 30 * int k, 100)) [1..<12] @ [(d2, 150)])"
    by (simp add: Let_def gap_def updated_def truthy_def synthetic_def monthly_rate_of_0
        eval_nat_numeral)
  moreover have "sorted (map snd ((d1, 100 :: real) # map (\<lambda>k. (d1 + 30 * int k, 100)) [1..<12] @ [(d2, 150)]))"
    by (simp add: sorted_append comp_def map_replicate_const)
  ultimately show ?thesis by simp
qed

theorem reconstruct_eleven_months_witness:
  "months_between (ymd2ord 2024 12 15) (ymd2ord 2024 1 15) = 11 \<and>
   is_date (ymd2ord 2024 1 15) \<and> is_date (ymd2ord 2024 12 15) \<and>
   reconstruct
     [\<lparr>date = ymd2ord 2024 1 15, amount = 100, is_total = False, current_total = None\<rparr>,
      \<lparr>date = ymd2ord 2024 12 15, amount = 50, is_total = False, current_total = None\<rparr>] 0
   = Inr ((ymd2ord 2024 1 15, 100) #
          map (\<lambda>k. (ymd2ord 2024 1 15 + 30 * int k, 100)) [1..<12] @ [(ymd2ord 2024 12 15, 150)])"
proof -
  have m: "months_between (ymd2ord 2024 12 15) (ymd2ord 2024 1 15) = 11"
    by code_simp
  have d: "is_date (ymd2ord 2024 1 15)" "is_date (ymd2ord 2024 12 15)"
    by code_simp+
  from reconstruct_eleven_months [OF m d] m d show ?thesis by simp
qed

lemma synthetic_dates:
  "map fst (synthetic mr ld cv m) = map (\<lambda>k. ld + 30 * int k) [1..<Suc m]"
  by (simp add: synthetic_def comp_def del: upt_Suc)

lemma sorted_synthetic_dates: "sorted (map fst (synthetic mr ld cv m))"
  unfolding synthetic_dates sorted_map
  by (rule sorted_wrt_mono_rel [OF _ sorted_upt]) simp

lemma synthetic_dates_ge: "\<forall>x \<in> set (map fst (synthetic mr ld cv m)). ld \<le> x"
  unfolding synthetic_dates by auto

lemma synthetic_dates_le:
  "(\<forall>x \<in> set (map fst (synthetic mr ld cv m)). x \<le> d) \<longleftrightarrow> (m = 0 \<or> ld + 30 * int m \<le> d)"
proof (cases m)
  case 0
  then show ?thesis by (simp add: synthetic_dates)
next
  case (Suc n)
  have "(\<forall>x \<in> set (map fst (synthetic mr ld cv m)). x \<le> d) \<longleftrightarrow>
        (\<forall>k \<in> {1..m}. ld + 30 * int k \<le> d)"
    unfolding synthetic_dates by auto
  also have "\<dots> \<longleftrightarrow> ld + 30 * int m \<le> d"
  proof
    assume "\<forall>k \<in> {1..m}. ld + 30 * int k \<le> d"
    moreover from Suc have "m \<in> {1..m}" by simp
    ultimately show "ld + 30 * int m \<le> d" by blast
  next
    assume le: "ld + 30 * int m \<le> d"
    show "\<forall>k \<in> {1..m}. ld + 30 * int k \<le> d"
    proof
      fix k assume "k \<in> {1..m}"
      then have "int k \<le> int m" by simp
      with le show "ld + 30 * int k \<le> d" by linarith
    qed
  qed
  finally show ?thesis using Suc by simp
qed

lemma points_dates_ge:
  "sorted (d # map date rs) \<Longrightarrow> \<forall>x \<in> set (map fst (points mr cv (Some d) rs)). d \<le> x"
proof (induction rs arbitrary: cv d)
  case Nil
  then show ?case by simp
next
  case (Cons r rs)
  from Cons.prems have dr: "d \<le> date r" and srt: "sorted (date r # map date rs)"
    by simp_all
  let ?cv1 = "updated (cv * (1 + mr) ^ gap (Some d) r) r"
  have "\<forall>x \<in> set (map fst (points mr ?cv1 (Some (date r)) rs)). date r \<le> x"
    by (rule Cons.IH [OF srt])
  with dr have "\<forall>x \<in> set (map fst (points mr ?cv1 (Some (date r)) rs)). d \<le> x"
    by fastforce
  with dr synthetic_dates_ge [of mr d cv "gap (Some d) r"] show ?case
    by (auto simp: Let_def)
qed

lemma sorted_points:
  "sorted (map date (a # rs)) \<Longrightarrow>
     sorted (map fst (points mr cv (Some (date a)) rs)) \<longleftrightarrow> steps_fit (a # rs)"
proof (induction rs arbitrary: a cv)
  case Nil
  then show ?case by simp
next
  case (Cons r rs)
  from Cons.prems have ar: "date a \<le> date r" and srt: "sorted (map date (r # rs))"
    by simp_all
  let ?m = "gap (Some (date a)) r"
  let ?cv1 = "updated (cv * (1 + mr) ^ ?m) r"
  let ?A = "map fst (synthetic mr (date a) cv ?m)"
  let ?B = "map fst (points mr ?cv1 (Some (date r)) rs)"
  have pts: "map fst (points mr cv (Some (date a)) (r # rs)) = ?A @ date r # ?B"
    by (simp add: Let_def)
  have ge: "\<forall>x \<in> set ?B. date r \<le> x"
    using points_dates_ge [of "date r" rs mr ?cv1] srt by simp
  have ih: "sorted ?B \<longleftrightarrow> steps_fit (r # rs)"
    by (rule Cons.IH [OF srt])
  have cross: "(\<forall>x \<in> set ?A. \<forall>y \<in> set (date r # ?B). x \<le> y) \<longleftrightarrow> (\<forall>x \<in> set ?A. x \<le> date r)"
    using ge by fastforce
  have fit: "(?m = 0 \<or> date a + 30 * int ?m \<le> date r) \<longleftrightarrow>
             (months_between (date r) (date a) \<le> 0
              \<or> date a + 30 * months_between (date r) (date a) \<le> date r)"
    by (cases "months_between (date r) (date a) \<le> 0") (simp_all add: gap_def)
  have "sorted (?A @ date r # ?B) \<longleftrightarrow>
        (\<forall>x \<in> set ?A. x \<le> date r) \<and> sorted ?B"
    using sorted_synthetic_dates [of mr "date a" cv ?m] ge cross
    by (simp only: sorted_append sorted_simps) blast
  then show ?case
    unfolding pts using ih synthetic_dates_le [of mr "date a" cv ?m "date r"] fit
    by simp
qed

text \<open>
  C6, as amended: for records sorted ascending by date, \<^verbatim>\<open>reconstruct\<close> returns a series, and
  the dates of the series are in non-decreasing order exactly when every gap fits, that is,
  when for every two consecutive records with at least one calendar month between them the
  last synthetic date, \<open>30 * months_between\<close> days after the earlier record, is not after the
  later record's date.
\<close>

theorem reconstruct_chronological_iff:
  assumes "sorted (map date rs)" and "\<forall>r \<in> set rs. is_date (date r)"
  shows "\<exists>pts. reconstruct rs annual_growth_rate = Inr pts \<and>
               (sorted (map fst pts) \<longleftrightarrow> steps_fit rs)"
proof -
  let ?mr = "monthly_rate_of annual_growth_rate"
  let ?pts = "points ?mr 0 None rs"
  have rec: "reconstruct rs annual_growth_rate = Inr ?pts"
    by (rule reconstruct_dates [OF assms(2)])
  have "sorted (map fst ?pts) \<longleftrightarrow> steps_fit rs"
  proof (cases rs)
    case Nil
    then show ?thesis by simp
  next
    case (Cons r rs')
    then have pts: "map fst ?pts = date r # map fst (points ?mr (updated 0 r) (Some (date r)) rs')"
      by (simp add: Let_def gap_def)
    from assms(1) Cons have srt: "sorted (map date (r # rs'))" by simp
    then have "\<forall>x \<in> set (map fst (points ?mr (updated 0 r) (Some (date r)) rs')). date r \<le> x"
      using points_dates_ge [of "date r" rs' ?mr "updated 0 r"] by simp
    then have "sorted (map fst ?pts) \<longleftrightarrow>
               sorted (map fst (points ?mr (updated 0 r) (Some (date r)) rs'))"
      unfolding pts by simp
    with sorted_points [OF srt, of ?mr "updated 0 r"] Cons show ?thesis by simp
  qed
  with rec show ?thesis by blast
qed

text \<open>
  C6, as stated, fails: between 2024-01-31 and 2024-02-01 lies one calendar month, and the
  synthetic point 30 days after 2024-01-31 is dated 2024-03-01, after the record point that
  follows it.
\<close>

theorem synthetic_point_after_next_record:
  "sorted (map date
     [\<lparr>date = ymd2ord 2024 1 31, amount = 100, is_total = False, current_total = None\<rparr>,
      \<lparr>date = ymd2ord 2024 2 1, amount = 50, is_total = False, current_total = None\<rparr>]) \<and>
   reconstruct
     [\<lparr>date = ymd2ord 2024 1 31, amount = 100, is_total = False, current_total = None\<rparr>,
      \<lparr>date = ymd2ord 2024 2 1, amount = 50, is_total = False, current_total = None\<rparr>] 0
   = Inr [(ymd2ord 2024 1 31, 100), (ymd2ord 2024 3 1, 100), (ymd2ord 2024 2 1, 150)] \<and>
   \<not> sorted [ymd2ord 2024 1 31, ymd2ord 2024 3 1, ymd2ord 2024 2 1]"
proof -
  have m: "months_between (ymd2ord 2024 2 1) (ymd2ord 2024 1 31) = 1"
    by code_simp
  have d: "ymd2ord 2024 1 31 = 738916" "ymd2ord 2024 2 1 = 738917" "ymd2ord 2024 3 1 = 738946"
    by code_simp+
  have "no_overflow None
     [\<lparr>date = ymd2ord 2024 1 31, amount = 100, is_total = False, current_total = None\<rparr>,
      \<lparr>date = ymd2ord 2024 2 1, amount = 50, is_total = False, current_total = None\<rparr>]"
    using m by (simp add: gap_def d MAXORDINAL_def)
  from reconstruct_total [OF this, of 0] m show ?thesis
    unfolding d
    by (simp add: Let_def gap_def updated_def truthy_def synthetic_def monthly_rate_of_0)
qed

text \<open>A gap that fits: 2024-01-15 and 2024-02-15, with the synthetic point on 2024-02-14.\<close>

theorem reconstruct_chronological_iff_witness:
  "sorted (map date
     [\<lparr>date = ymd2ord 2024 1 15, amount = 100, is_total = False, current_total = None\<rparr>,
      \<lparr>date = ymd2ord 2024 2 15, amount = 50, is_total = False, current_total = None\<rparr>]) \<and>
   reconstruct
     [\<lparr>date = ymd2ord 2024 1 15, amount = 100, is_total = False, current_total = None\<rparr>,
      \<lparr>date = ymd2ord 2024 2 15, amount = 50, is_total = False, current_total = None\<rparr>] 0
   = Inr [(ymd2ord 2024 1 15, 100), (ymd2ord 2024 2 14, 100), (ymd2ord 2024 2 15, 150)] \<and>
   sorted (map fst [(ymd2ord 2024 1 15, 100 :: real), (ymd2ord 2024 2 14, 100), (ymd2ord 2024 2 15, 150)]) \<and>
   steps_fit
     [\<lparr>date = ymd2ord 2024 1 15, amount = 100, is_total = False, current_total = None\<rparr>,
      \<lparr>date = ymd2ord 2024 2 15, amount = 50, is_total = False, current_total = None\<rparr>]"
proof -
  have m: "months_between (ymd2ord 2024 2 15) (ymd2ord 2024 1 15) = 1"
    by code_simp
  have d: "ymd2ord 2024 1 15 = 738900" "ymd2ord 2024 2 14 = 738930" "ymd2ord 2024 2 15 = 738931"
    by code_simp+
  have "no_overflow None
     [\<lparr>date = ymd2ord 2024 1 15, amount = 100, is_total = False, current_total = None\<rparr>,
      \<lparr>date = ymd2ord 2024 2 15, amount = 50, is_total = False, current_total = None\<rparr>]"
    using m by (simp add: gap_def d MAXORDINAL_def)
  from reconstruct_total [OF this, of 0] m have r: "reconstruct
     [\<lparr>date = ymd2ord 2024 1 15, amount = 100, is_total = False, current_total = None\<rparr>,
      \<lparr>date = ymd2ord 2024 2 15, amount = 50, is_total = False, current_total = None\<rparr>] 0
   = Inr [(ymd2ord 2024 1 15, 100), (ymd2ord 2024 2 14, 100), (ymd2ord 2024 2 15, 150)]"
    unfolding d
    by (simp add: Let_def gap_def updated_def truthy_def synthetic_def monthly_rate_of_0)
  have s: "sorted (map date
     [\<lparr>date = ymd2ord 2024 1 15, amount = 100, is_total = False, current_total = None\<rparr>,
      \<lparr>date = ymd2ord 2024 2 15, amount = 50, is_total = False, current_total = None\<rparr>])"
    by (simp add: d)
  have "sorted (map fst [(ymd2ord 2024 1 15, 100 :: real), (ymd2ord 2024 2 14, 100), (ymd2ord 2024 2 15, 150)])"
    by (simp add: d)
  moreover have v: "\<forall>r \<in> set
     [\<lparr>date = ymd2ord 2024 1 15, amount = 100, is_total = False, current_total = None\<rparr>,
      \<lparr>date = ymd2ord 2024 2 15, amount = 50, is_total = False, current_total = None\<rparr>].
       is_date (date r)"
    by (simp add: d is_date_def MAXORDINAL_def)
  moreover from reconstruct_chronological_iff [OF s v, of 0] r
  have "steps_fit
     [\<lparr>date = ymd2ord 2024 1 15, amount = 100, is_total = False, current_total = None\<rparr>,
      \<lparr>date = ymd2ord 2024 2 15, amount = 50, is_total = False, current_total = None\<rparr>]
    \<longleftrightarrow> sorted (map fst [(ymd2ord 2024 1 15, 100 :: real), (ymd2ord 2024 2 14, 100),
          (ymd2ord 2024 2 15, 150)])"
    by auto
  ultimately show ?thesis using s r by blast
qed

section \<open>Properties of the cumulative totals\<close>

lemma cumulative_loop_spec:
  "cumulative_loop tot acc rs = acc @ cumulative_spec tot rs"
  by (induction rs arbitrary: tot acc)
     (auto simp: Let_def next_total_def split: option.splits)

lemma length_cumulative_spec: "length (cumulative_spec tot rs) = length rs"
  by (induction rs arbitrary: tot) simp_all

lemma cumulative_spec_nonneg:
  "0 \<le> tot \<Longrightarrow>
   \<forall>r \<in> set rs. 0 \<le> amount r \<and> (\<forall>c. current_total r = Some c \<longrightarrow> 0 \<le> c) \<Longrightarrow>
   \<forall>t \<in> set (cumulative_spec tot rs). 0 \<le> t"
proof (induction rs arbitrary: tot)
  case Nil
  then show ?case by simp
next
  case (Cons r rs)
  from Cons.prems have "0 \<le> next_total tot r"
    by (cases "current_total r") (simp_all add: next_total_def)
  with Cons.IH [of "next_total tot r"] Cons.prems(2) show ?case by simp
qed

text \<open>
  C4: \<^verbatim>\<open>cumulative\<close> returns one running total per record, in order, computed as the
  specification words it (\<open>cumulative_spec\<close> from 0: \<open>current_total\<close> when present and not
  zero, else \<open>amount\<close> when \<open>is_total\<close> is set, else the total plus \<open>amount\<close>); on two deposits of
  100 and 50 followed by a total of 500 it yields 100, 150, 500.
\<close>

theorem cumulative_running_totals:
  "cumulative records = cumulative_spec 0 records \<and>
   length (cumulative records) = length records \<and>
   cumulative
     [\<lparr>date = d1, amount = 100, is_total = False, current_total = None\<rparr>,
      \<lparr>date = d2, amount = 50, is_total = False, current_total = None\<rparr>,
      \<lparr>date = d3, amount = a, is_total = True, current_total = Some 500\<rparr>] = [100, 150, 500]"
  by (simp add: cumulative_def cumulative_loop_spec length_cumulative_spec next_total_def)

section \<open>Single records and the flag \<open>is_total\<close>\<close>

text \<open>
  C8: for a single record and every annual rate \<^verbatim>\<open>reconstruct\<close> returns exactly one point,
  at the record's date, and no synthetic point; its value is \<open>current_total\<close> when that is
  present and not zero, and \<open>amount\<close> otherwise.
\<close>

theorem reconstruct_single:
  "reconstruct [r] annual_growth_rate =
     Inr [(date r, if truthy (current_total r) then the (current_total r) else amount r)]"
  by (simp add: reconstruct_def process_record_def history0_def truthy_def Let_def
      split: option.splits)

lemma process_record_same:
  "same_but_is_total r r' \<Longrightarrow> process_record mr h r = process_record mr h r'"
  by (auto simp: same_but_is_total_def process_record_def Let_def split: option.splits sum.splits)

lemma history_loop_same:
  "list_all2 same_but_is_total rs rs' \<Longrightarrow> history_loop mr h rs = history_loop mr h rs'"
proof (induction rs rs' arbitrary: h rule: list_all2_induct)
  case Nil
  then show ?case by simp
next
  case (Cons r rs r' rs')
  then show ?case by (simp add: process_record_same [of r r'] split: sum.splits)
qed

text \<open>
  C9: two lists of records that agree in every date, amount and \<open>current_total\<close> (and differ
  at most in \<open>is_total\<close>) have the same reconstruction; and a record whose \<open>current_total\<close> is
  absent or zero is added to the compounded balance as a deposit although \<open>is_total\<close> is set.
\<close>

theorem reconstruct_ignores_is_total:
  assumes "list_all2 same_but_is_total rs rs'"
  shows "reconstruct rs annual_growth_rate = reconstruct rs' annual_growth_rate \<and>
         (\<not> truthy (current_total r) \<longrightarrow>
            process_record monthly_rate h (r\<lparr>is_total := True\<rparr>) = Inr h1 \<longrightarrow>
            current_value h1 =
              current_value h * (1 + monthly_rate) ^ gap (last_date h) r + amount r)"
proof
  show "reconstruct rs annual_growth_rate = reconstruct rs' annual_growth_rate"
    using history_loop_same [OF assms] by (simp add: reconstruct_def)
  show "\<not> truthy (current_total r) \<longrightarrow>
            process_record monthly_rate h (r\<lparr>is_total := True\<rparr>) = Inr h1 \<longrightarrow>
            current_value h1 =
              current_value h * (1 + monthly_rate) ^ gap (last_date h) r + amount r"
    using process_record_result(1) [of monthly_rate h "r\<lparr>is_total := True\<rparr>" h1]
    by (cases "last_date h") (simp_all add: updated_def gap_def)
qed

lemma reconstruct_one: "reconstruct [r] annual = Inr [(date r, updated 0 r)]"
  by (simp add: reconstruct_def process_record_def history0_def updated_def truthy_def Let_def
      split: option.splits)

theorem reconstruct_ignores_is_total_witness:
  "list_all2 same_but_is_total
     [\<lparr>date = ymd2ord 2024 1 15, amount = 100, is_total = True, current_total = Some 0\<rparr>]
     [\<lparr>date = ymd2ord 2024 1 15, amount = 100, is_total = False, current_total = Some 0\<rparr>] \<and>
   reconstruct
     [\<lparr>date = ymd2ord 2024 1 15, amount = 100, is_total = True, current_total = Some 0\<rparr>] 0 =
   reconstruct
     [\<lparr>date = ymd2ord 2024 1 15, amount = 100, is_total = False, current_total = Some 0\<rparr>] 0 \<and>
   reconstruct
     [\<lparr>date = ymd2ord 2024 1 15, amount = 100, is_total = True, current_total = Some 0\<rparr>] 0 =
   Inr [(ymd2ord 2024 1 15, 100)] \<and>
   process_record 0 history0
     \<lparr>date = ymd2ord 2024 1 15, amount = 100, is_total = True, current_total = Some 0\<rparr>
   = Inr \<lparr>graph_dates = [ymd2ord 2024 1 15], graph_values = [100], current_value = 100,
          last_date = Some (ymd2ord 2024 1 15)\<rparr>"
  using reconstruct_ignores_is_total
    [of "[\<lparr>date = ymd2ord 2024 1 15, amount = 100, is_total = True, current_total = Some 0\<rparr>]"
        "[\<lparr>date = ymd2ord 2024 1 15, amount = 100, is_total = False, current_total = Some 0\<rparr>]"
        0 "\<lparr>date = ymd2ord 2024 1 15, amount = 100, is_total = False, current_total = Some 0\<rparr>"
        0 history0
        "\<lparr>graph_dates = [ymd2ord 2024 1 15], graph_values = [100], current_value = 100,
          last_date = Some (ymd2ord 2024 1 15)\<rparr>"]
  by (simp add: same_but_is_total_def reconstruct_one updated_def truthy_def process_record_def
      history0_def)

text \<open>
  C1, as amended: every record the loop processes (its date and the last date being dates
  of the calendar) is processed without error and updates the running balance by the rule:
  \<open>current_value\<close> is set to \<open>current_total\<close> when \<open>current_total\<close> is present and not zero,
  and \<open>amount\<close> is added to the compounded balance otherwise; the updated balance is the value
  of the record's point. The choice rests on \<open>current_total\<close> alone. Where \<open>is_total\<close> holds
  exactly when \<open>current_total\<close> is present and not zero, which is how the form stores a
  record, this is the rule on the flag.
\<close>

theorem process_record_update:
  assumes "is_date (date r)"
    and "case last_date h of None \<Rightarrow> True | Some ld \<Rightarrow> is_date ld"
  shows "\<exists>h1. process_record monthly_rate h r = Inr h1 \<and>
           current_value h1 =
             (if truthy (current_total r) then the (current_total r)
              else current_value h * (1 + monthly_rate) ^ gap (last_date h) r + amount r) \<and>
           last (graph_values h1) = current_value h1 \<and>
           ((is_total r \<longleftrightarrow> truthy (current_total r)) \<longrightarrow>
              current_value h1 =
                update_by_is_total
                  (current_value h * (1 + monthly_rate) ^ gap (last_date h) r) r)"
proof -
  from process_record_dates [OF assms] obtain h1
    where h1: "process_record monthly_rate h r = Inr h1" ..
  have cv: "current_value h1 =
           (if truthy (current_total r) then the (current_total r)
            else current_value h * (1 + monthly_rate) ^ gap (last_date h) r + amount r)"
    using process_record_result(1) [OF h1] by (simp add: updated_def)
  have "graph_values h1 =
          graph_values h @ map snd (points monthly_rate (current_value h) (last_date h) [r])"
    by (rule process_record_result(4) [OF h1])
  then have "last (graph_values h1) =
               updated (current_value h * (1 + monthly_rate) ^ gap (last_date h) r) r"
    by (simp add: Let_def)
  with process_record_result(1) [OF h1] have "last (graph_values h1) = current_value h1"
    by simp
  with cv h1 show ?thesis by (auto simp: update_by_is_total_def)
qed

theorem process_record_update_witness:
  "is_date (ymd2ord 2024 1 20) \<and> is_date (ymd2ord 2024 1 15) \<and>
   process_record 0
     \<lparr>graph_dates = [ymd2ord 2024 1 15], graph_values = [100], current_value = 100,
       last_date = Some (ymd2ord 2024 1 15)\<rparr>
     \<lparr>date = ymd2ord 2024 1 20, amount = 50, is_total = True, current_total = Some 500\<rparr>
   = Inr \<lparr>graph_dates = [ymd2ord 2024 1 15, ymd2ord 2024 1 20], graph_values = [100, 500],
          current_value = 500, last_date = Some (ymd2ord 2024 1 20)\<rparr> \<and>
   (500 :: real) = update_by_is_total (100 * (1 + 0) ^ 0)
     \<lparr>date = ymd2ord 2024 1 20, amount = 50, is_total = True, current_total = Some 500\<rparr>"
proof -
  let ?h = "\<lparr>graph_dates = [ymd2ord 2024 1 15], graph_values = [100 :: real],
             current_value = 100 :: real, last_date = Some (ymd2ord 2024 1 15)\<rparr>"
  let ?r = "\<lparr>date = ymd2ord 2024 1 20, amount = 50, is_total = True,
             current_total = Some 500\<rparr>"
  have m: "months_between (ymd2ord 2024 1 20) (ymd2ord 2024 1 15) = 0"
    by code_simp
  have d: "is_date (ymd2ord 2024 1 20)" "is_date (ymd2ord 2024 1 15)"
    by code_simp+
  from m have p: "process_record 0 ?h ?r
   = Inr \<lparr>graph_dates = [ymd2ord 2024 1 15, ymd2ord 2024 1 20], graph_values = [100, 500],
          current_value = 500, last_date = Some (ymd2ord 2024 1 20)\<rparr>"
    by (simp add: process_record_def)
  from process_record_update [of ?r ?h 0] d m p show ?thesis
    by (simp add: truthy_def gap_def)
qed

text \<open>
  C1, as stated, fails: the flag \<open>is_total\<close> is never read. A record flagged as a total
  whose \<open>current_total\<close> is zero is added to the balance (150, where the rule on the flag
  gives 0), and a record not flagged whose \<open>current_total\<close> is 500 replaces the balance
  (500, where the rule on the flag gives 160).
\<close>

theorem reconstruct_not_by_is_total:
  "reconstruct
     [\<lparr>date = ymd2ord 2024 1 15, amount = 100, is_total = False, current_total = None\<rparr>,
      \<lparr>date = ymd2ord 2024 1 20, amount = 50, is_total = True, current_total = Some 0\<rparr>,
      \<lparr>date = ymd2ord 2024 1 25, amount = 10, is_total = False, current_total = Some 500\<rparr>] 0
   = Inr [(ymd2ord 2024 1 15, 100), (ymd2ord 2024 1 20, 150), (ymd2ord 2024 1 25, 500)] \<and>
   update_by_is_total 100
     \<lparr>date = ymd2ord 2024 1 20, amount = 50, is_total = True, current_total = Some 0\<rparr> = 0 \<and>
   update_by_is_total 150
     \<lparr>date = ymd2ord 2024 1 25, amount = 10, is_total = False, current_total = Some 500\<rparr> = 160"
proof -
  have m: "months_between (ymd2ord 2024 1 20) (ymd2ord 2024 1 15) = 0"
    "months_between (ymd2ord 2024 1 25) (ymd2ord 2024 1 20) = 0"
    by code_simp+
  have "no_overflow None
     [\<lparr>date = ymd2ord 2024 1 15, amount = 100, is_total = False, current_total = None\<rparr>,
      \<lparr>date = ymd2ord 2024 1 20, amount = 50, is_total = True, current_total = Some 0\<rparr>,
      \<lparr>date = ymd2ord 2024 1 25, amount = 10, is_total = False, current_total = Some 500\<rparr>]"
    using m by (simp add: gap_def)
  from reconstruct_total [OF this, of 0] m show ?thesis
    by (simp add: Let_def gap_def updated_def truthy_def synthetic_def update_by_is_total_def)
qed

section \<open>Non-negative values\<close>

lemma synthetic_nonneg:
  "0 \<le> 1 + mr \<Longrightarrow> 0 \<le> cv \<Longrightarrow> \<forall>p \<in> set (synthetic mr ld cv m). 0 \<le> snd p"
  by (auto simp: synthetic_def)

lemma updated_nonneg:
  "0 \<le> cv \<Longrightarrow> 0 \<le> amount r \<Longrightarrow> (\<forall>c. current_total r = Some c \<longrightarrow> 0 \<le> c) \<Longrightarrow>
     0 \<le> updated cv r"
  by (cases "current_total r") (simp_all add: updated_def truthy_def)

lemma points_nonneg:
  assumes "0 \<le> 1 + mr"
  shows "0 \<le> cv \<Longrightarrow>
         \<forall>r \<in> set rs. 0 \<le> amount r \<and> (\<forall>c. current_total r = Some c \<longrightarrow> 0 \<le> c) \<Longrightarrow>
         \<forall>p \<in> set (points mr cv prev rs). 0 \<le> snd p"
proof (induction rs arbitrary: cv prev)
  case Nil
  then show ?case by simp
next
  case (Cons r rs)
  let ?g = "cv * (1 + mr) ^ gap prev r"
  from assms Cons.prems(1) have "0 \<le> ?g" by simp
  with Cons.prems(2) have u: "0 \<le> updated ?g r"
    by (intro updated_nonneg) simp_all
  from Cons.prems(2) have "\<forall>r \<in> set rs. 0 \<le> amount r \<and> (\<forall>c. current_total r = Some c \<longrightarrow> 0 \<le> c)"
    by simp
  from Cons.IH [OF u this]
  have rest: "\<forall>p \<in> set (points mr (updated ?g r) (Some (date r)) rs). 0 \<le> snd p" .
  show ?case
  proof (cases prev)
    case None
    with u rest show ?thesis by (simp add: Let_def)
  next
    case (Some ld)
    with u rest synthetic_nonneg [OF assms Cons.prems(1), of ld "gap prev r"] show ?thesis
      by (auto simp: Let_def)
  qed
qed

text \<open>
  C10: when the annual rate, every amount, every present \<open>current_total\<close>, the initial value
  and the monthly contribution are not negative (and the records carry dates of the
  calendar), \<^verbatim>\<open>reconstruct\<close> returns a series with no negative value, no running total of
  \<^verbatim>\<open>cumulative\<close> is negative and no value of \<^verbatim>\<open>compute_growth\<close> is negative.
\<close>

theorem nonnegative_values:
  assumes "0 \<le> annual_rate"
    and "\<forall>r \<in> set records. 0 \<le> amount r \<and> (\<forall>c. current_total r = Some c \<longrightarrow> 0 \<le> c)"
    and "0 \<le> initial" and "0 \<le> monthly"
    and "\<forall>r \<in> set records. is_date (date r)"
  shows "(\<exists>pts. reconstruct records annual_rate = Inr pts \<and> (\<forall>p \<in> set pts. 0 \<le> snd p)) \<and>
         (\<forall>t \<in> set (cumulative records). 0 \<le> t) \<and>
         (\<forall>v \<in> set (compute_growth initial monthly years annual_rate). 0 \<le> v)"
proof (intro conjI)
  from points_nonneg [OF growth_factor_nonneg _ assms(2), of 0 annual_rate None]
  have "\<forall>p \<in> set (points (monthly_rate_of annual_rate) 0 None records). 0 \<le> snd p" by simp
  with reconstruct_dates [OF assms(5), of annual_rate]
  show "\<exists>pts. reconstruct records annual_rate = Inr pts \<and> (\<forall>p \<in> set pts. 0 \<le> snd p)"
    by blast
next
  show "\<forall>t \<in> set (cumulative records). 0 \<le> t"
    using cumulative_spec_nonneg [OF _ assms(2), of 0]
    by (simp add: cumulative_def cumulative_loop_spec)
next
  show "\<forall>v \<in> set (compute_growth initial monthly years annual_rate). 0 \<le> v"
    using forecast_values_nonneg [OF growth_factor_nonneg assms(4,3)]
    by (simp add: compute_growth_values)
qed

theorem nonnegative_values_witness:
  "(0 :: real) \<le> 0 \<and>
   reconstruct
     [\<lparr>date = ymd2ord 2024 1 15, amount = 100, is_total = True, current_total = Some 500\<rparr>] 0
     = Inr [(ymd2ord 2024 1 15, 500)] \<and> (0 :: real) \<le> snd (ymd2ord 2024 1 15, 500) \<and>
   cumulative
     [\<lparr>date = ymd2ord 2024 1 15, amount = 100, is_total = True, current_total = Some 500\<rparr>]
     = [500] \<and>
   0 \<le> compute_growth 500 100 1 0 ! 0"
proof -
  let ?rs = "[\<lparr>date = ymd2ord 2024 1 15, amount = 100, is_total = True, current_total = Some 500\<rparr>]"
  have r: "reconstruct ?rs 0 = Inr [(ymd2ord 2024 1 15, 500)]"
    by (simp add: reconstruct_one updated_def truthy_def)
  have c: "cumulative ?rs = [500]"
    by (simp add: cumulative_def)
  have "compute_growth 500 100 1 0 ! 0 \<in> set (compute_growth 500 100 1 0)"
    by (rule nth_mem) (simp add: compute_growth_values length_forecast_values)
  moreover have "is_date (ymd2ord 2024 1 15)" by code_simp
  ultimately show ?thesis
    using nonnegative_values [of 0 ?rs 500 100 1] r c by simp
qed

end
